theory Spec2Isabelle
  imports Main "HOL-Library.Multiset"
begin

section \<open>Data model of package fuzzy\<close>

text \<open>
  Go strings are byte sequences: \<open>len\<close>, indexing and slicing count bytes, so a Go
  \<open>string\<close> is a \<^typ>\<open>string\<close> (a list of 8-bit characters).  Go's \<open>int\<close> is modelled
  by \<^typ>\<open>int\<close>; the one place where the code multiplies an \<open>int\<close> (the bonus in
  \<open>best\<close>) has its 64-bit wrap-around written out.  Counters that only ever grow by one
  per call (\<open>Data[term]++\<close>) and edit distances, which are bounded by a string length,
  are left unbounded.
\<close>

record Potential =
  pot_term :: string
  pot_score :: int
  pot_leven :: int
  pot_method :: int

record Model =
  Data :: "string \<rightharpoonup> int"
  maxcount :: int
  suggest :: "string \<rightharpoonup> string list"
  depth :: int
  threshold :: int
  chars :: int

text \<open>\<open>NewModel\<close> allocates a zero-valued struct and calls \<open>Init\<close>, which overwrites the
  two maps, the depth and the threshold and leaves the other fields at zero.\<close>

definition Init :: Model where
  "Init = \<lparr>Data = Map.empty, maxcount = 0, suggest = Map.empty,
           depth = 2, threshold = 4, chars = 0\<rparr>"

definition SetDepth :: "Model \<Rightarrow> int \<Rightarrow> Model" where
  "SetDepth model val = model\<lparr>depth := val\<rparr>"

definition SetThreshold :: "Model \<Rightarrow> int \<Rightarrow> Model" where
  "SetThreshold model val = model\<lparr>threshold := val\<rparr>"

definition min_go :: "int \<Rightarrow> int \<Rightarrow> int" where
  "min_go a b = (if a < b then a else b)"

definition max_go :: "int \<Rightarrow> int \<Rightarrow> int" where
  "max_go a b = (if a < b then b else a)"

section \<open>Levenshtein\<close>

text \<open>
  The body of the inner loop \<open>for j = 1; j <= n; j++\<close>: one cell of the row \<open>current\<close>
  is written from \<open>previous\<close> and from the cell to its left.  All indices are in range:
  \<open>1 \<le> j \<le> n \<le> m\<close>, \<open>1 \<le> i \<le> m\<close>, and both rows have \<open>m + 1\<close> entries.
\<close>

definition lev_cell :: "string \<Rightarrow> string \<Rightarrow> nat \<Rightarrow> int list \<Rightarrow> int list \<Rightarrow> nat \<Rightarrow> int list" where
  "lev_cell a b i previous current j =
     (if a ! (j - 1) = b ! (i - 1) then current[j := previous ! (j - 1)]
      else (let add = previous ! j + 1;
                delete = current ! (j - 1) + 1;
                change = previous ! (j - 1) + 1
            in current[j := min_go (min_go add delete) change]))"

text \<open>
  The body of the outer loop \<open>for i = 1; i <= m; i++\<close>: \<open>copy(previous, current)\<close>,
  the row \<open>current\<close> is zeroed, its first cell set to \<open>i\<close>, and the inner loop runs.
\<close>

definition lev_row :: "string \<Rightarrow> string \<Rightarrow> int list \<Rightarrow> nat \<Rightarrow> int list" where
  "lev_row a b current i =
     (let previous = current;
          zeroed = map (\<lambda>_. 0) current;
          start = zeroed[0 := int i]
      in foldl (lev_cell a b i previous) start [1..<length a + 1])"

text \<open>The function after the swap that makes \<open>a\<close> the shorter string (\<open>n \<le> m\<close>).\<close>

definition lev_rows :: "string \<Rightarrow> string \<Rightarrow> int" where
  "lev_rows a b =
     (let n = length a; m = length b;
          current = replicate (m + 1) 0
      in foldl (lev_row a b) current [1..<m + 1] ! n)"

definition Levenshtein :: "string \<Rightarrow> string \<Rightarrow> int" where
  "Levenshtein a b =
     (if length a > length b then lev_rows b a else lev_rows a b)"

section \<open>Deletion variants\<close>

text \<open>
  \<open>Edits1\<close> first lists the \<open>len(word) + 1\<close> splits \<open>(word[:i], word[i:])\<close> and then, for
  each split, drops the first byte of the second half, or keeps the first half when the
  second is empty.
\<close>

definition splits :: "string \<Rightarrow> (string \<times> string) list" where
  "splits word = map (\<lambda>i. (take i word, drop i word)) [0..<length word + 1]"

definition Edits1 :: "string \<Rightarrow> string list" where
  "Edits1 word =
     foldl (\<lambda>total_set (str1, str2).
              if length str2 > 0 then total_set @ [str1 @ drop 1 str2]
              else total_set @ [str1])
       [] (splits word)"

text \<open>
  One round of the loop body of \<open>EditsMulti\<close>.  The \<open>range\<close> clause evaluates the slice
  \<open>edits\<close> once, so the round visits the entries present when it starts and appends
  the variants of each of them at the end.
\<close>

definition edits_round :: "string list \<Rightarrow> string list" where
  "edits_round edits =
     foldl (\<lambda>acc edit. foldl (\<lambda>acc2 edit2. acc2 @ [edit2]) acc (Edits1 edit)) edits edits"

text \<open>
  The loop \<open>for { depth--; if depth == 0 { break }; ... }\<close> may run forever, so it is a
  partial function: \<open>None\<close> is "does not return".  The counter is an unbounded integer.
  A 64-bit counter started at \<open>depth \<le> 0\<close> would have to be decremented at least
  \<open>2 ^ 63\<close> times to wrap around to \<open>0\<close>, and every round at least doubles the slice
  (\<open>edits_rounds_grow\<close> below), whose length is itself a Go \<open>int\<close>; no execution gets
  there.
\<close>

partial_function (option) EditsMulti_loop :: "string list \<Rightarrow> int \<Rightarrow> string list option" where
  "EditsMulti_loop edits dep =
     (let dep = dep - 1
      in if dep = 0 then Some edits
         else EditsMulti_loop (edits_round edits) dep)"

declare EditsMulti_loop.simps [code]

definition EditsMulti :: "string \<Rightarrow> int \<Rightarrow> string list option" where
  "EditsMulti term dep = EditsMulti_loop (Edits1 term) dep"

section \<open>Frequency model\<close>

definition score :: "Model \<Rightarrow> string \<Rightarrow> int" where
  "score model input = (case Data model input of Some sc \<Rightarrow> sc | None \<Rightarrow> 0)"

text \<open>Reading a missing key of \<open>model.suggest\<close> gives the nil slice.\<close>

definition suggest_list :: "Model \<Rightarrow> string \<Rightarrow> string list" where
  "suggest_list model edit = (case suggest model edit of Some l \<Rightarrow> l | None \<Rightarrow> [])"

text \<open>
  The body of \<open>for _, edit := range edits\<close> in \<open>TrainWord\<close>: the inner loop sets \<open>skip\<close>
  when the term is already listed under \<open>edit\<close>, and the term is appended to the list
  of \<open>edit\<close> when it is not and \<open>edit\<close> has more than one byte.
\<close>

definition index_edit :: "string \<Rightarrow> Model \<Rightarrow> string \<Rightarrow> Model" where
  "index_edit term model edit =
     (let skip = foldl (\<lambda>skip hit. if hit = term then True else skip) False
                   (suggest_list model edit)
      in if \<not> skip \<and> length edit > 1
         then model\<lparr>suggest := (suggest model)(edit \<mapsto> suggest_list model edit @ [term])\<rparr>
         else model)"

text \<open>The first two statements of \<open>TrainWord\<close>: \<open>model.Data[term]++\<close> (a missing key reads
  as 0) and the update of \<open>maxcount\<close>.\<close>

definition count_term :: "Model \<Rightarrow> string \<Rightarrow> Model" where
  "count_term model term =
     (let model = model\<lparr>Data := (Data model)(term \<mapsto> score model term + 1)\<rparr>
      in if score model term > maxcount model
         then model\<lparr>maxcount := score model term\<rparr> else model)"

definition TrainWord :: "Model \<Rightarrow> string \<Rightarrow> Model option" where
  "TrainWord model term =
     (let model = count_term model term
      in if score model term = threshold model
         then (case EditsMulti term (depth model) of
                 None \<Rightarrow> None
               | Some edits \<Rightarrow> Some (foldl (index_edit term) model edits))
         else Some model)"

fun Train :: "Model \<Rightarrow> string list \<Rightarrow> Model option" where
  "Train model [] = Some model"
| "Train model (term # terms) =
     (case TrainWord model term of
        None \<Rightarrow> None
      | Some model' \<Rightarrow> Train model' terms)"

section \<open>Candidates\<close>

text \<open>
  The candidate map \<open>map[string]*Potential\<close> of a query is an association list in
  insertion order; every insertion in the source is guarded by an absence test, so a key
  occurs once.  Go leaves the order in which \<open>range\<close> visits a map unspecified, and it
  may differ from one \<open>range\<close> statement to the next.  A function that ranges over the
  map therefore takes the order as an argument \<open>rng\<close>: \<open>rng i entries\<close> is the sequence
  in which the \<open>i\<close>-th \<open>range\<close> statement it executes visits \<open>entries\<close>.  Theorems hold
  for every \<open>rng\<close> that permutes its argument.
\<close>

type_synonym potentials = "(string \<times> Potential) list"

type_synonym range_order = "nat \<Rightarrow> potentials \<Rightarrow> potentials"


definition insert_absent :: "potentials \<Rightarrow> string \<Rightarrow> Potential \<Rightarrow> potentials" where
  "insert_absent suggestions key pot =
     (if map_of suggestions key = None then suggestions @ [(key, pot)] else suggestions)"

section \<open>Ranker\<close>

datatype error = IndexOutOfRange

text \<open>The value of a Go \<open>int\<close> expression after 64-bit two's-complement wrap-around.\<close>

definition int64 :: "int \<Rightarrow> int" where
  "int64 x = (x + 2 ^ 63) mod 2 ^ 64 - 2 ^ 63"

text \<open>
  One run of the inner loop \<open>for _, pot := range potential\<close> of \<open>best\<close> for the distance
  \<open>i\<close>, over the candidates in the order visited.  It ends in a \<open>return\<close> from the
  function, in a panic (\<open>pot.term[0]\<close> or \<open>input[0]\<close> on an empty string), or at the end
  of the map with the running \<open>best\<close> and \<open>bestcalc\<close>.
\<close>

datatype scan = Return string | Continue string int

fun best_pass :: "string \<Rightarrow> int \<Rightarrow> Potential list \<Rightarrow> string \<Rightarrow> int \<Rightarrow> error + scan" where
  "best_pass input i [] best bestcalc = Inr (Continue best bestcalc)"
| "best_pass input i (pot # pots) best bestcalc =
     (if pot_leven pot = 0 then Inr (Return (pot_term pot))
      else if pot_leven pot = i then
        (if pot_score pot > bestcalc then
           (case pot_term pot of
              [] \<Rightarrow> Inl IndexOutOfRange
            | t0 # _ \<Rightarrow>
                (case input of
                   [] \<Rightarrow> Inl IndexOutOfRange
                 | c0 # _ \<Rightarrow>
                     (let bestcalc = pot_score pot;
                          bestcalc = (if t0 = c0
                                      then int64 (bestcalc + int64 (bestcalc * 100))
                                      else bestcalc)
                      in best_pass input i pots (pot_term pot) bestcalc)))
         else best_pass input i pots best bestcalc)
      else best_pass input i pots best bestcalc)"

text \<open>The outer loop \<open>for i := 0; i < 4; i++\<close>, over the distances still to try.\<close>

fun best_loop :: "(nat \<Rightarrow> Potential list) \<Rightarrow> string \<Rightarrow> nat list \<Rightarrow> string \<Rightarrow> int \<Rightarrow> error + string" where
  "best_loop visit input [] best bestcalc = Inr best"
| "best_loop visit input (i # rest) best bestcalc =
     (case best_pass input (int i) (visit i) best bestcalc of
        Inl e \<Rightarrow> Inl e
      | Inr (Return t) \<Rightarrow> Inr t
      | Inr (Continue best' bestcalc') \<Rightarrow>
          if bestcalc' > 0 then Inr best'
          else best_loop visit input rest best' bestcalc')"

definition best :: "range_order \<Rightarrow> string \<Rightarrow> potentials \<Rightarrow> error + string" where
  "best rng input potential =
     best_loop (\<lambda>i. map snd (rng i potential)) input [0, 1, 2, 3] [] 0"

section \<open>Suggestion engine\<close>

text \<open>
  \<open>strings.ToLower\<close> belongs to Go's standard library, not to this package; the query
  functions take it as the argument \<open>to_lower\<close>.  On ASCII input it is \<open>ascii_lower\<close>,
  which the concrete runs below use.
\<close>

definition ascii_lower :: "string \<Rightarrow> string" where
  "ascii_lower s =
     map (\<lambda>c. if 65 \<le> (of_char c :: nat) \<and> (of_char c :: nat) \<le> 90
              then char_of ((of_char c :: nat) + 32) else c) s"

text \<open>Step 0: the input is a dictionary term with a count above 5.\<close>

definition tier0 :: "Model \<Rightarrow> string \<Rightarrow> potentials" where
  "tier0 model input =
     (if score model input > 5
      then [(input, \<lparr>pot_term = input, pot_score = score model input,
                     pot_leven = 0, pot_method = 0\<rparr>)]
      else [])"

text \<open>Step 1: the input is a key of \<open>model.suggest\<close>.\<close>

definition tier1_step :: "Model \<Rightarrow> string \<Rightarrow> potentials \<Rightarrow> string \<Rightarrow> potentials" where
  "tier1_step model input suggestions pot =
     insert_absent suggestions pot
       \<lparr>pot_term = pot, pot_score = score model pot,
        pot_leven = Levenshtein input pot, pot_method = 1\<rparr>"

definition tier1 :: "Model \<Rightarrow> string \<Rightarrow> potentials \<Rightarrow> potentials" where
  "tier1 model input suggestions =
     (case suggest model input of
        Some sugg \<Rightarrow> foldl (tier1_step model input) suggestions sugg
      | None \<Rightarrow> suggestions)"

text \<open>Step 2: a deletion variant of the input is a dictionary term; the pair carries
  the local variable \<open>max\<close>.\<close>

definition tier2_step :: "Model \<Rightarrow> string \<Rightarrow> potentials \<times> int \<Rightarrow> string \<Rightarrow> potentials \<times> int" where
  "tier2_step model input acc edit =
     (let suggestions = fst acc; mx = snd acc; sc = score model edit
      in if sc > 0 \<and> length edit > 2
         then (insert_absent suggestions edit
                 \<lparr>pot_term = edit, pot_score = sc,
                  pot_leven = Levenshtein input edit, pot_method = 2\<rparr>,
               if sc > mx then sc else mx)
         else (suggestions, mx))"

definition tier2 :: "Model \<Rightarrow> string \<Rightarrow> potentials \<Rightarrow> string list \<Rightarrow> potentials \<times> int" where
  "tier2 model input suggestions edits =
     foldl (tier2_step model input) (suggestions, 0) edits"

text \<open>Step 3: a deletion variant of the input is a key of \<open>model.suggest\<close>; a listed term
  is kept when its distance to the input is at most \<open>depth + 1\<close>.\<close>

definition tier3_pot :: "Model \<Rightarrow> string \<Rightarrow> potentials \<Rightarrow> string \<Rightarrow> potentials" where
  "tier3_pot model input suggestions pot =
     (let lev = Levenshtein input pot
      in if lev \<le> depth model + 1
         then insert_absent suggestions pot
                \<lparr>pot_term = pot, pot_score = score model pot,
                 pot_leven = lev, pot_method = 3\<rparr>
         else suggestions)"

definition tier3_step :: "Model \<Rightarrow> string \<Rightarrow> potentials \<Rightarrow> string \<Rightarrow> potentials" where
  "tier3_step model input suggestions edit =
     (case suggest model edit of
        Some sugg \<Rightarrow> foldl (tier3_pot model input) suggestions sugg
      | None \<Rightarrow> suggestions)"

definition tier3 :: "Model \<Rightarrow> string \<Rightarrow> potentials \<Rightarrow> string list \<Rightarrow> potentials" where
  "tier3 model input suggestions edits =
     foldl (tier3_step model input) suggestions edits"

definition suggestPotential :: "(string \<Rightarrow> string) \<Rightarrow> Model \<Rightarrow> string \<Rightarrow> bool \<Rightarrow> potentials option" where
  "suggestPotential to_lower model input exhaustive =
     (let input = to_lower input;
          suggestions = tier0 model input
      in if score model input > 5 \<and> \<not> exhaustive then Some suggestions
         else
           (let suggestions = tier1 model input suggestions
            in if suggest model input \<noteq> None \<and> \<not> exhaustive then Some suggestions
               else
                 (case EditsMulti input (depth model) of
                    None \<Rightarrow> None
                  | Some edits \<Rightarrow>
                      (let acc = tier2 model input suggestions edits
                       in if snd acc > 0 \<and> \<not> exhaustive then Some (fst acc)
                          else Some (tier3 model input (fst acc) edits)))))"

text \<open>\<open>make([]string, 10)\<close> is a slice of ten empty strings; the loop appends to it.\<close>

definition Suggestions :: "range_order \<Rightarrow> (string \<Rightarrow> string) \<Rightarrow> Model \<Rightarrow> string \<Rightarrow> bool \<Rightarrow> string list option" where
  "Suggestions rng to_lower model input exhaustive =
     (case suggestPotential to_lower model input exhaustive of
        None \<Rightarrow> None
      | Some suggestions \<Rightarrow>
          Some (foldl (\<lambda>output suggestion. output @ [pot_term suggestion])
                  (replicate 10 []) (map snd (rng 0 suggestions))))"


section \<open>Reachable model states\<close>


inductive trained :: "int \<Rightarrow> Model \<Rightarrow> bool" for k :: int where
  trained_Init: "trained k (SetThreshold Init k)"
| trained_SetDepth: "trained k m \<Longrightarrow> trained k (SetDepth m d)"
| trained_TrainWord: "trained k m \<Longrightarrow> TrainWord m t = Some m' \<Longrightarrow> trained k m'"
| trained_Train: "trained k m \<Longrightarrow> Train m ts = Some m' \<Longrightarrow> trained k m'"

text \<open>A new model with depth \<open>d\<close> and threshold \<open>k\<close>.\<close>

definition fresh :: "int \<Rightarrow> int \<Rightarrow> Model" where
  "fresh d k = SetThreshold (SetDepth Init d) k"

section \<open>Contracts in the words of the specification\<close>

text \<open>
  The minimum number of single-character insertions, deletions and substitutions that
  turn one string into the other, as the textbook recursion on the two strings; this is
  the reference that \<open>Levenshtein\<close> is compared with, not a translation of the code.
\<close>

fun edit_distance :: "string \<Rightarrow> string \<Rightarrow> nat" where
  "edit_distance [] b = length b"
| "edit_distance a [] = length a"
| "edit_distance (x # a) (y # b) =
     min (min (edit_distance a (y # b) + 1) (edit_distance (x # a) b + 1))
         (edit_distance a b + (if x = y then 0 else 1))"

text \<open>
  The deletion closure of depth \<open>d\<close>, as the glossary has it: all strings reachable within
  \<open>d\<close> successive rounds, each of which deletes one character or none.  This is the
  reference that the result of \<open>EditsMulti\<close> is compared with.
\<close>

definition delete_one :: "string \<Rightarrow> string set" where
  "delete_one s = set (map (\<lambda>i. take i s @ drop (Suc i) s) [0..<length s])"

fun deletion_closure :: "nat \<Rightarrow> string \<Rightarrow> string set" where
  "deletion_closure 0 t = {t}"
| "deletion_closure (Suc d) t =
     deletion_closure d t \<union> (\<Union>s \<in> deletion_closure d t. delete_one s)"

section \<open>Auxiliary notions for the proofs\<close>

text \<open>The \<open>i\<close>-th entry of \<open>Edits1 word\<close>: byte \<open>i\<close> deleted, or the word itself for the
  last split.\<close>

definition variant :: "string \<Rightarrow> nat \<Rightarrow> string" where
  "variant word i = (if i < length word then take i word @ drop (Suc i) word else word)"

text \<open>The invariant of the deletion index for a threshold \<open>k\<close>.\<close>

definition indexed_ok :: "int \<Rightarrow> Model \<Rightarrow> bool" where
  "indexed_ok k m =
     (threshold m = k \<and> (\<forall>e u. u \<in> set (suggest_list m e) \<longrightarrow> k \<le> score m u))"




section \<open>Properties of \<open>Edits1\<close>\<close>

lemma foldl_snoc_map: "foldl (\<lambda>acc x. acc @ [f x]) acc xs = acc @ map f xs"
  by (induction xs arbitrary: acc) simp_all

lemma foldl_snoc_id: "foldl (\<lambda>acc x. acc @ [x]) acc xs = acc @ xs"
  by (induction xs arbitrary: acc) simp_all

lemma Edits1_variants: "Edits1 word = map (variant word) [0..<length word + 1]"
proof -
  have step: "(\<lambda>total_set (str1, str2).
              if length str2 > 0 then total_set @ [str1 @ drop 1 str2]
              else total_set @ [str1]) =
        (\<lambda>total_set p. total_set @ [(\<lambda>(str1, str2). if length str2 > 0 then str1 @ drop 1 str2 else str1) p])"
    by (auto simp: fun_eq_iff)
  have "Edits1 word = map (\<lambda>(str1, str2). if length str2 > 0 then str1 @ drop 1 str2 else str1) (splits word)"
    unfolding Edits1_def step by (simp add: foldl_snoc_map)
  also have "\<dots> = map (variant word) [0..<length word + 1]"
    unfolding splits_def by (auto simp: variant_def)
  finally show ?thesis .
qed

lemma length_Edits1: "length (Edits1 word) = length word + 1"
  by (simp add: Edits1_variants)

lemma set_Edits1:
  "set (Edits1 word) = insert word {take i word @ drop (Suc i) word |i. i < length word}"
  unfolding Edits1_variants by (auto simp: variant_def image_iff)

lemma length_variant: "i < length word \<Longrightarrow> length (variant word i) + 1 = length word"
  by (auto simp: variant_def)

lemma count_Edits1_self: "count_list (Edits1 word) word = 1"
proof -
  have a: "[0..<length word + 1] = [0..<length word] @ [length word]" by simp
  have b: "count_list (map (variant word) [0..<length word]) word = 0"
  proof -
    have "word \<notin> set (map (variant word) [0..<length word])"
    proof
      assume "word \<in> set (map (variant word) [0..<length word])"
      then obtain i where "i < length word" "variant word i = word" by auto
      with length_variant[of i word] show False by simp
    qed
    then show ?thesis by simp
  qed
  show ?thesis unfolding Edits1_variants a by (simp add: b) (simp add: variant_def)
qed

text \<open>
  C8. For every string of length \<open>n\<close>, \<open>Edits1\<close> returns exactly \<open>n + 1\<close> strings, each of
  length \<open>n\<close> or \<open>n - 1\<close>, and exactly one of them is the input itself.
\<close>

theorem Edits1_shape:
  "length (Edits1 word) = length word + 1 \<and>
   (\<forall>e \<in> set (Edits1 word). length e = length word \<or> length e + 1 = length word) \<and>
   count_list (Edits1 word) word = 1"
proof -
  have "\<forall>e \<in> set (Edits1 word). length e = length word \<or> length e + 1 = length word"
    unfolding set_Edits1 by auto
  then show ?thesis by (simp add: length_Edits1 count_Edits1_self)
qed

theorem Edits1_shape_witness:
  "length (Edits1 ''abc'') = 4 \<and> ''ac'' \<in> set (Edits1 ''abc'') \<and>
   length ''ac'' + 1 = length ''abc'' \<and> count_list (Edits1 ''abc'') ''abc'' = 1"
  using Edits1_shape [of "''abc''"] by code_simp

section \<open>Termination of \<open>EditsMulti\<close>\<close>

lemma edits_round_concat: "edits_round edits = edits @ concat (map Edits1 edits)"
proof -
  have "foldl (\<lambda>acc edit. foldl (\<lambda>acc2 edit2. acc2 @ [edit2]) acc (Edits1 edit)) acc xs
        = acc @ concat (map Edits1 xs)" for acc xs
    by (induction xs arbitrary: acc) (simp_all add: foldl_snoc_id)
  then show ?thesis by (simp add: edits_round_def)
qed

lemma edits_round_doubles: "2 * length edits \<le> length (edits_round edits)"
proof -
  have "length xs \<le> length (concat (map Edits1 xs))" for xs
  proof (induction xs)
    case Nil
    show ?case by simp
  next
    case (Cons x xs)
    then show ?case by (simp add: length_Edits1)
  qed
  then show ?thesis by (simp add: edits_round_concat)
qed

lemma EditsMulti_loop_Suc:
  "EditsMulti_loop edits (int (Suc n)) = Some ((edits_round ^^ n) edits)"
proof (induction n arbitrary: edits)
  case 0
  show ?case by (subst EditsMulti_loop.simps) simp
next
  case (Suc n)
  have "EditsMulti_loop edits (int (Suc (Suc n))) = EditsMulti_loop (edits_round edits) (int (Suc n))"
    by (subst EditsMulti_loop.simps) (simp add: Let_def)
  also have "\<dots> = Some ((edits_round ^^ n) (edits_round edits))" by (rule Suc)
  also have "(edits_round ^^ n) (edits_round edits) = (edits_round ^^ Suc n) edits"
    by (simp add: funpow_swap1)
  finally show ?case .
qed

lemma EditsMulti_loop_Some_pos:
  assumes "EditsMulti_loop edits dep = Some r"
  shows "1 \<le> dep"
  by (rule EditsMulti_loop.raw_induct[where P = "\<lambda>edits dep r. 1 \<le> dep", OF _ assms])
     (force simp: Let_def split: if_splits)

lemma EditsMulti_loop_pos:
  assumes "1 \<le> dep"
  shows "EditsMulti_loop edits dep = Some ((edits_round ^^ nat (dep - 1)) edits)"
proof -
  from assms have "dep = int (Suc (nat (dep - 1)))" by simp
  then show ?thesis using EditsMulti_loop_Suc[of edits "nat (dep - 1)"] by simp
qed

lemma EditsMulti_loop_nonpos: "dep \<le> 0 \<Longrightarrow> EditsMulti_loop edits dep = None"
  using EditsMulti_loop_Some_pos[of edits dep] by (cases "EditsMulti_loop edits dep") auto

lemma EditsMulti_pos:
  "1 \<le> dep \<Longrightarrow> EditsMulti term dep = Some ((edits_round ^^ nat (dep - 1)) (Edits1 term))"
  by (simp add: EditsMulti_def EditsMulti_loop_pos)

lemma EditsMulti_nonpos: "dep \<le> 0 \<Longrightarrow> EditsMulti term dep = None"
  by (simp add: EditsMulti_def EditsMulti_loop_nonpos)

lemma set_Edits1_delete_one: "set (Edits1 w) = insert w (delete_one w)"
  unfolding set_Edits1 delete_one_def by auto

lemma set_edits_round: "set (edits_round E) = set E \<union> (\<Union>s \<in> set E. delete_one s)"
  unfolding edits_round_concat by (auto simp: set_Edits1_delete_one)

lemma set_edits_rounds:
  "set ((edits_round ^^ n) (Edits1 t)) = deletion_closure (Suc n) t"
proof (induction n)
  case 0
  show ?case by (auto simp: set_Edits1_delete_one)
next
  case (Suc n)
  have "set ((edits_round ^^ Suc n) (Edits1 t)) = set (edits_round ((edits_round ^^ n) (Edits1 t)))"
    by simp
  also have "\<dots> = deletion_closure (Suc n) t \<union> (\<Union>s \<in> deletion_closure (Suc n) t. delete_one s)"
    unfolding set_edits_round Suc ..
  also have "\<dots> = deletion_closure (Suc (Suc n)) t" by simp
  finally show ?case .
qed

lemma EditsMulti_closure:
  assumes "EditsMulti t d = Some edits"
  shows "set edits = deletion_closure (nat d) t"
proof -
  from assms have d: "1 \<le> d" using EditsMulti_nonpos[of d t] by (cases "1 \<le> d") auto
  then have n: "nat d = Suc (nat (d - 1))" by simp
  from assms EditsMulti_pos[OF d, of t] have "edits = (edits_round ^^ nat (d - 1)) (Edits1 t)"
    by simp
  then show ?thesis unfolding n by (simp only: set_edits_rounds)
qed

lemma edits_rounds_grow: "2 ^ r * length edits \<le> length ((edits_round ^^ r) edits)"
proof (induction r)
  case 0
  show ?case by simp
next
  case (Suc r)
  have "2 ^ Suc r * length edits = 2 * (2 ^ r * length edits)" by simp
  also have "\<dots> \<le> 2 * length ((edits_round ^^ r) edits)" using Suc by simp
  also have "\<dots> \<le> length (edits_round ((edits_round ^^ r) edits))" by (rule edits_round_doubles)
  finally show ?case by simp
qed



section \<open>\<open>Levenshtein\<close> against the edit distance\<close>

text \<open>The rows keep their \<open>m + 1\<close> entries, so the indices \<open>j \<le> n \<le> m\<close> of the inner
  loop stay in range.\<close>

lemma lev_cell_length: "length (lev_cell a b i previous current j) = length current"
  by (simp add: lev_cell_def Let_def)

lemma lev_row_length: "length (lev_row a b current i) = length current"
proof -
  have "length (foldl (lev_cell a b i previous) start js) = length start" for previous start js
    by (induction js arbitrary: start) (simp_all add: lev_cell_length)
  then show ?thesis by (simp add: lev_row_def Let_def)
qed

lemma lev_rows_length:
  "length (foldl (lev_row a b) current is) = length current"
  by (induction "is" arbitrary: current) (simp_all add: lev_row_length)

text \<open>With an empty argument the result is the length of the other one, and on strings
  of different lengths the swap makes the result independent of the argument order.\<close>

lemma lev_row_Nil: "lev_row [] b current i = (map (\<lambda>_. 0) current)[0 := int i]"
  by (simp add: lev_row_def)

lemma lev_rows_Nil_fold:
  "foldl (lev_row [] b) (replicate (m + 1) 0) [1..<k + 1] =
     (if k = 0 then replicate (m + 1) 0 else (replicate (m + 1) 0)[0 := int k])"
proof (induction k)
  case 0
  show ?case by simp
next
  case (Suc k)
  have "[1..<Suc k + 1] = [1..<k + 1] @ [Suc k]" by simp
  then have "foldl (lev_row [] b) (replicate (m + 1) 0) [1..<Suc k + 1]
        = lev_row [] b (foldl (lev_row [] b) (replicate (m + 1) 0) [1..<k + 1]) (Suc k)"
    by (simp only: foldl_append foldl.simps)
  also have "\<dots> = (replicate (m + 1) 0)[0 := int (Suc k)]"
    unfolding Suc by (simp add: lev_row_Nil)
  finally show ?case by simp
qed

lemma lev_rows_Nil: "lev_rows [] b = int (length b)"
proof -
  have "lev_rows [] b =
        (if length b = 0 then replicate (length b + 1) 0
         else (replicate (length b + 1) 0)[0 := int (length b)]) ! 0"
    unfolding lev_rows_def Let_def by (simp only: lev_rows_Nil_fold list.size)
  then show ?thesis by (cases b) simp_all
qed

lemma Levenshtein_Nil_left: "Levenshtein [] b = int (length b)"
  by (simp add: Levenshtein_def lev_rows_Nil)

lemma Levenshtein_Nil_right: "Levenshtein a [] = int (length a)"
  by (cases a) (simp_all add: Levenshtein_def lev_rows_Nil)

lemma Levenshtein_sym_lengths:
  "length a \<noteq> length b \<Longrightarrow> Levenshtein a b = Levenshtein b a"
  by (auto simp: Levenshtein_def)

text \<open>
  C1. \<open>Levenshtein a b\<close> is claimed to be the minimum number of insertions, deletions and
  substitutions that turn \<open>a\<close> into \<open>b\<close>.  The row \<open>current\<close> starts as zeros where the
  recurrence needs \<open>0, 1, ..., n\<close>, and the code returns 1 for \<open>ab\<close> and \<open>ba\<close>, whose
  edit distance is 2.
\<close>

theorem Levenshtein_ab_ba: "Levenshtein ''ab'' ''ba'' = 1 \<and> edit_distance ''ab'' ''ba'' = 2"
  by code_simp

text \<open>
  C2. \<open>Levenshtein\<close> is claimed to be symmetric.  On two strings of the same length
  nothing is swapped and the zero first row lets a prefix of the first argument go
  unmatched at no cost: the two orders of \<open>abc\<close> and \<open>bcd\<close> give 1 and 2.
\<close>

theorem Levenshtein_abc_bcd: "Levenshtein ''abc'' ''bcd'' = 1 \<and> Levenshtein ''bcd'' ''abc'' = 2"
  by code_simp

section \<open>Training and the deletion index\<close>

lemma skip_fold: "foldl (\<lambda>skip hit. if hit = t then True else skip) b l = (b \<or> t \<in> set l)"
  by (induction l arbitrary: b) auto

lemma index_edit_eq:
  "index_edit t m e =
     (if t \<notin> set (suggest_list m e) \<and> 1 < length e
      then m\<lparr>suggest := (suggest m)(e \<mapsto> suggest_list m e @ [t])\<rparr> else m)"
  by (simp add: index_edit_def skip_fold)

lemma foldl_index_fields:
  "Data (foldl (index_edit t) m edits) = Data m \<and>
   maxcount (foldl (index_edit t) m edits) = maxcount m \<and>
   depth (foldl (index_edit t) m edits) = depth m \<and>
   threshold (foldl (index_edit t) m edits) = threshold m \<and>
   chars (foldl (index_edit t) m edits) = chars m"
proof (induction edits rule: rev_induct)
  case Nil
  show ?case by simp
next
  case (snoc x xs)
  have step: "foldl (index_edit t) m (xs @ [x]) = index_edit t (foldl (index_edit t) m xs) x"
    by simp
  show ?case unfolding step by (subst index_edit_eq)+ (use snoc in simp)
qed

lemma foldl_index_score: "score (foldl (index_edit t) m edits) u = score m u"
  by (simp add: score_def foldl_index_fields)

lemma foldl_index_suggest:
  assumes "\<forall>e. t \<notin> set (suggest_list m e)"
  shows "suggest (foldl (index_edit t) m edits) e =
         (if e \<in> set edits \<and> 1 < length e then Some (suggest_list m e @ [t]) else suggest m e)"
  using assms
proof (induction edits arbitrary: e rule: rev_induct)
  case Nil
  show ?case by simp
next
  case (snoc x xs)
  let ?m = "foldl (index_edit t) m xs"
  have IH: "suggest ?m e' = (if e' \<in> set xs \<and> 1 < length e' then Some (suggest_list m e' @ [t]) else suggest m e')" for e'
    using snoc by simp
  have sl: "suggest_list ?m x = (if x \<in> set xs \<and> 1 < length x then suggest_list m x @ [t] else suggest_list m x)"
    using IH[of x] by (simp add: suggest_list_def)
  have step: "foldl (index_edit t) m (xs @ [x]) = index_edit t ?m x" by simp
  show ?case unfolding step
    by (subst index_edit_eq) (use snoc.prems sl IH[of e] in \<open>auto simp: suggest_list_def\<close>)
qed

lemma foldl_index_sub:
  "set (suggest_list (foldl (index_edit t) m edits) e) \<subseteq> insert t (set (suggest_list m e))"
proof (induction edits rule: rev_induct)
  case Nil
  show ?case by auto
next
  case (snoc x xs)
  have step: "foldl (index_edit t) m (xs @ [x]) = index_edit t (foldl (index_edit t) m xs) x"
    by simp
  show ?case unfolding step
    by (subst index_edit_eq) (use snoc in \<open>auto simp: suggest_list_def split: if_splits\<close>)
qed

lemma count_term_fields:
  "suggest (count_term m t) = suggest m \<and> depth (count_term m t) = depth m \<and>
   threshold (count_term m t) = threshold m \<and> chars (count_term m t) = chars m"
  by (simp add: count_term_def Let_def)

lemma count_term_score:
  "score (count_term m t) u = (if u = t then score m t + 1 else score m u)"
  by (simp add: count_term_def Let_def score_def)

lemma count_term_suggest_list: "suggest_list (count_term m t) e = suggest_list m e"
  by (simp add: suggest_list_def count_term_fields)

lemma TrainWord_eq:
  "TrainWord m t =
     (if score m t + 1 = threshold m
      then (case EditsMulti t (depth m) of
              None \<Rightarrow> None
            | Some edits \<Rightarrow> Some (foldl (index_edit t) (count_term m t) edits))
      else Some (count_term m t))"
  by (simp add: TrainWord_def Let_def count_term_score count_term_fields)

lemma TrainWord_fields:
  assumes "TrainWord m t = Some m'"
  shows "depth m' = depth m" "threshold m' = threshold m" "chars m' = chars m"
    "score m' u = (if u = t then score m t + 1 else score m u)"
  using assms
  by (auto simp: TrainWord_eq foldl_index_fields foldl_index_score count_term_fields count_term_score
      split: if_splits option.splits)

lemma TrainWord_suggest_sub:
  assumes "TrainWord m t = Some m'"
  shows "set (suggest_list m' e) \<subseteq>
         (if score m t + 1 = threshold m then insert t (set (suggest_list m e))
          else set (suggest_list m e))"
  using assms foldl_index_sub[of t "count_term m t" _ e]
  by (auto simp: TrainWord_eq count_term_suggest_list split: if_splits option.splits)

lemma TrainWord_total:
  "1 \<le> depth m \<Longrightarrow> \<exists>m'. TrainWord m t = Some m'"
  by (simp add: TrainWord_eq EditsMulti_pos)

lemma indexed_ok_TrainWord:
  assumes "indexed_ok k m" "TrainWord m t = Some m'"
  shows "indexed_ok k m'"
proof -
  have thr: "threshold m' = k" using assms by (simp add: indexed_ok_def TrainWord_fields)
  have "k \<le> score m' u" if "u \<in> set (suggest_list m' e)" for e u
  proof (cases "u \<in> set (suggest_list m e)")
    case True
    with assms(1) have "k \<le> score m u" by (auto simp: indexed_ok_def)
    then show ?thesis using TrainWord_fields(4)[OF assms(2), of u] by (cases "u = t") auto
  next
    case False
    with that TrainWord_suggest_sub[OF assms(2), of e]
    have "u = t" "score m t + 1 = threshold m" by (auto split: if_splits)
    then show ?thesis using TrainWord_fields(4)[OF assms(2), of t] assms(1)
      by (simp add: indexed_ok_def)
  qed
  with thr show ?thesis by (simp add: indexed_ok_def)
qed

lemma indexed_ok_Train:
  "indexed_ok k m \<Longrightarrow> Train m ts = Some m' \<Longrightarrow> indexed_ok k m'"
  by (induction ts arbitrary: m) (auto split: option.splits dest: indexed_ok_TrainWord)

lemma trained_indexed_ok: "trained k m \<Longrightarrow> indexed_ok k m"
proof (induction rule: trained.induct)
  case trained_Init
  show ?case by (simp add: indexed_ok_def SetThreshold_def Init_def suggest_list_def)
next
  case (trained_SetDepth m d)
  then show ?case by (simp add: indexed_ok_def SetDepth_def suggest_list_def score_def)
next
  case (trained_TrainWord m t m')
  then show ?case by (auto dest: indexed_ok_TrainWord)
next
  case (trained_Train m ts m')
  then show ?case by (auto dest: indexed_ok_Train)
qed

text \<open>
  C7. In every state reached from a new model by \<open>Train\<close> and \<open>TrainWord\<close> calls with the
  threshold fixed at \<open>k\<close>, every term listed in the deletion index (\<open>suggest\<close>) has a
  count of at least \<open>k\<close> in \<open>Data\<close>.
\<close>

theorem indexed_terms_reach_threshold:
  assumes "trained k m" "suggest m e = Some l" "t \<in> set l"
  shows "threshold m = k \<and> k \<le> score m t"
proof -
  have ok: "indexed_ok k m" using assms(1) by (rule trained_indexed_ok)
  have "t \<in> set (suggest_list m e)" using assms(2,3) by (simp add: suggest_list_def)
  with ok show ?thesis unfolding indexed_ok_def by blast
qed

lemma Train_total:
  "1 \<le> depth m \<Longrightarrow>
   \<exists>m'. Train m ws = Some m' \<and> depth m' = depth m \<and> threshold m' = threshold m \<and>
        (\<forall>t. score m' t = score m t + int (count_list ws t))"
proof (induction ws arbitrary: m)
  case Nil
  show ?case by simp
next
  case (Cons w ws)
  from TrainWord_total[OF Cons.prems] obtain m1 where m1: "TrainWord m w = Some m1" by blast
  note f = TrainWord_fields[OF m1]
  from Cons.prems f(1) have "1 \<le> depth m1" by simp
  from Cons.IH[OF this] obtain m' where m': "Train m1 ws = Some m'" "depth m' = depth m1"
    "threshold m' = threshold m1" "\<forall>t. score m' t = score m1 t + int (count_list ws t)" by blast
  show ?case using m1 m' f by auto
qed

lemma Train_trained: "Train (fresh d k) ws = Some m \<Longrightarrow> trained k m"
proof -
  have "trained k (fresh d k)"
    using trained_SetDepth[OF trained_Init, of k d]
    by (simp add: fresh_def SetDepth_def SetThreshold_def Init_def)
  then show "Train (fresh d k) ws = Some m \<Longrightarrow> trained k m" by (rule trained_Train)
qed

text \<open>
  C5. Take a model with fixed depth \<open>d \<ge> 1\<close> and threshold \<open>k \<ge> 1\<close> after any training
  history \<open>ws\<close>.  The next \<open>TrainWord\<close> call for \<open>t\<close> returns, and it raises the count of
  \<open>t\<close> to exactly \<open>k\<close> precisely when it is the \<open>k\<close>-th call for \<open>t\<close>.  On that one
  call \<open>t\<close>, listed nowhere before, is appended to the list of every variant of length
  above 1 in the depth-\<open>d\<close> deletion closure of \<open>t\<close>, which is what \<open>EditsMulti t d\<close>
  lists, and no other key changes; on every other call the index is left as it is.
\<close>

theorem TrainWord_indexes_once:
  assumes "1 \<le> d" "1 \<le> k"
  shows "\<exists>m m' edits.
           Train (fresh d k) ws = Some m \<and> TrainWord m t = Some m' \<and>
           EditsMulti t d = Some edits \<and> set edits = deletion_closure (nat d) t \<and>
           score m t = int (count_list ws t) \<and> score m' t = score m t + 1 \<and>
           (score m' t = k) = (count_list ws t + 1 = nat k) \<and>
           (if score m' t = k
            then (\<forall>e. t \<notin> set (suggest_list m e)) \<and>
                 (\<forall>e. suggest m' e =
                        (if e \<in> set edits \<and> 1 < length e
                         then Some (suggest_list m e @ [t]) else suggest m e))
            else suggest m' = suggest m)"
proof -
  have d0: "depth (fresh d k) = d" and k0: "threshold (fresh d k) = k"
    and s0: "score (fresh d k) u = 0" for u
    by (simp_all add: fresh_def SetDepth_def SetThreshold_def Init_def score_def)
  from Train_total[of "fresh d k" ws] assms(1) d0 k0 s0
  obtain m where m: "Train (fresh d k) ws = Some m" "depth m = d" "threshold m = k"
    "\<forall>u. score m u = int (count_list ws u)" by auto
  from EditsMulti_pos[OF assms(1), of t]
  obtain edits where edits: "EditsMulti t d = Some edits" by blast
  from TrainWord_total[of m t] m(2) assms(1)
  obtain m' where m': "TrainWord m t = Some m'" by auto
  have sc: "score m' t = score m t + 1" using TrainWord_fields(4)[OF m', of t] by simp
  have iff: "(score m' t = k) = (count_list ws t + 1 = nat k)"
    using sc m(4) assms(2) by auto
  have ok: "indexed_ok k m" using Train_trained[OF m(1)] by (rule trained_indexed_ok)
  have body: "if score m' t = k
            then (\<forall>e. t \<notin> set (suggest_list m e)) \<and>
                 (\<forall>e. suggest m' e =
                        (if e \<in> set edits \<and> 1 < length e
                         then Some (suggest_list m e @ [t]) else suggest m e))
            else suggest m' = suggest m"
  proof (cases "score m' t = k")
    case True
    have notin: "\<forall>e. t \<notin> set (suggest_list m e)"
    proof (intro allI notI)
      fix e assume "t \<in> set (suggest_list m e)"
      with ok have "k \<le> score m t" unfolding indexed_ok_def by blast
      with True sc show False by simp
    qed
    then have notin': "\<forall>e. t \<notin> set (suggest_list (count_term m t) e)"
      by (simp add: count_term_suggest_list)
    from True sc m(3) have cross: "score m t + 1 = threshold m" by simp
    with m' edits m(2) have "m' = foldl (index_edit t) (count_term m t) edits"
      by (simp add: TrainWord_eq)
    then have "suggest m' e =
                        (if e \<in> set edits \<and> 1 < length e
                         then Some (suggest_list m e @ [t]) else suggest m e)" for e
      using foldl_index_suggest[OF notin', of edits e]
      by (simp add: count_term_suggest_list count_term_fields)
    with True notin show ?thesis by simp
  next
    case False
    with sc m(3) have "score m t + 1 \<noteq> threshold m" by simp
    with m' have "m' = count_term m t" by (simp add: TrainWord_eq)
    with False show ?thesis by (simp add: count_term_fields)
  qed
  have clo: "set edits = deletion_closure (nat d) t" using edits by (rule EditsMulti_closure)
  from m(1) m' edits clo m(4) sc iff body show ?thesis by blast
qed

theorem TrainWord_indexes_once_witness:
  "\<exists>m m'. Train (fresh 2 2) [''abc''] = Some m \<and> TrainWord m ''abc'' = Some m' \<and>
          score m' ''abc'' = 2 \<and> suggest m ''ab'' = None \<and> suggest m' ''ab'' = Some [''abc''] \<and>
          suggest m' ''a'' = None \<and> suggest m' ''abc'' = Some [''abc'']"
proof -
  have d: "(1::int) \<le> 2" by simp
  from TrainWord_indexes_once [OF d d, of "[''abc'']" "''abc''"]
  obtain m m' edits where h: "Train (fresh 2 2) [''abc''] = Some m" "TrainWord m ''abc'' = Some m'"
           "EditsMulti ''abc'' 2 = Some edits"
           "score m ''abc'' = int (count_list [''abc''] ''abc'')" "score m' ''abc'' = score m ''abc'' + 1"
           "(if score m' ''abc'' = 2
            then (\<forall>e. ''abc'' \<notin> set (suggest_list m e)) \<and>
                 (\<forall>e. suggest m' e =
                        (if e \<in> set edits \<and> 1 < length e
                         then Some (suggest_list m e @ [''abc'']) else suggest m e))
            else suggest m' = suggest m)" by blast
  have e: "edits = [''bc'', ''ac'', ''ab'', ''abc'', ''c'', ''b'', ''bc'', ''c'', ''a'',
   ''ac'', ''b'', ''a'', ''ab'', ''bc'', ''ac'', ''ab'', ''abc'']"
  proof -
    have "EditsMulti ''abc'' 2 = Some [''bc'', ''ac'', ''ab'', ''abc'', ''c'', ''b'', ''bc'', ''c'', ''a'',
   ''ac'', ''b'', ''a'', ''ab'', ''bc'', ''ac'', ''ab'', ''abc'']" by code_simp
    with h(3) show ?thesis by simp
  qed
  have s2: "score m' ''abc'' = 2" using h(4,5) by simp
  have sm: "suggest m e = None" for e
  proof -
    have "m = count_term (fresh 2 2) ''abc''" using h(1)
      by (simp add: TrainWord_eq fresh_def SetDepth_def SetThreshold_def Init_def score_def)
    then show ?thesis
      by (simp add: count_term_fields) (simp add: fresh_def SetDepth_def SetThreshold_def Init_def)
  qed
  have nl: "suggest_list m e = []" for e by (simp add: suggest_list_def sm)
  from h(6) s2 have all: "\<forall>e. suggest m' e =
                        (if e \<in> set edits \<and> 1 < length e
                         then Some (suggest_list m e @ [''abc'']) else suggest m e)" by simp
  have "suggest m' ''ab'' = Some [''abc'']" using all[rule_format, of "''ab''"] by (simp add: e nl)
  moreover have "suggest m' ''abc'' = Some [''abc'']" using all[rule_format, of "''abc''"] by (simp add: e nl)
  moreover have "suggest m' ''a'' = None" using all[rule_format, of "''a''"] by (simp add: sm)
  ultimately show ?thesis using h(1,2) s2 sm by blast
qed

theorem indexed_terms_reach_threshold_witness:
  "\<exists>m. trained 4 m \<and> suggest m ''ab'' = Some [''abc''] \<and> ''abc'' \<in> set [''abc''] \<and>
       threshold m = 4 \<and> 4 \<le> score m ''abc''"
proof -
  let ?ws = "[''abc'', ''abc'', ''abc'', ''abc'']"
  have "\<not> Option.is_none (Train (SetThreshold Init 4) ?ws)" by code_simp
  then obtain m where m: "Train (SetThreshold Init 4) ?ws = Some m"
    by (auto simp: Option.is_none_def)
  have t: "trained 4 m" using trained_Train[OF trained_Init m] .
  have "suggest (the (Train (SetThreshold Init 4) ?ws)) ''ab'' = Some [''abc'']" by code_simp
  with m have s: "suggest m ''ab'' = Some [''abc'']" by simp
  have i: "''abc'' \<in> set [''abc'']" by simp
  from indexed_terms_reach_threshold [OF t s i] t s i show ?thesis by blast
qed

section \<open>The suggestion cascade only adds candidates\<close>

lemma set_insert_absent: "set s \<subseteq> set (insert_absent s k p)"
  by (auto simp: insert_absent_def)









lemma suggestPotential_total:
  assumes "1 \<le> depth m"
  shows "\<exists>s. suggestPotential to_lower m input ex = Some s"
  using EditsMulti_pos[OF assms, of "to_lower input"] 
  by (auto simp: suggestPotential_def Let_def)



lemma Suggestions_eq:
  "Suggestions rng to_lower m input ex =
     map_option (\<lambda>s. replicate 10 [] @ map (pot_term \<circ> snd) (rng 0 s))
       (suggestPotential to_lower m input ex)"
  by (simp add: Suggestions_def foldl_snoc_map split: option.splits)


text \<open>
  C3. For every model state, input and flag, a list returned by \<open>Suggestions\<close> begins with
  ten empty strings, followed by the terms of the candidates in the order the map is
  ranged over; with a depth of at least 1 the call does return.
\<close>

theorem Suggestions_blank_prefix:
  "(1 \<le> depth model \<longrightarrow> (\<exists>output. Suggestions rng to_lower model input exhaustive = Some output)) \<and>
   (\<forall>output. Suggestions rng to_lower model input exhaustive = Some output \<longrightarrow>
      10 \<le> length output \<and> take 10 output = replicate 10 [] \<and>
      (\<exists>suggestions. suggestPotential to_lower model input exhaustive = Some suggestions \<and>
         drop 10 output = map (pot_term \<circ> snd) (rng 0 suggestions)))"
  using suggestPotential_total[of model to_lower input exhaustive]
  by (auto simp: Suggestions_eq)

theorem Suggestions_blank_prefix_witness:
  "Suggestions (\<lambda>i xs. xs) ascii_lower (the (Train (fresh 2 1) [''abc''])) ''AB'' False
     = Some [[], [], [], [], [], [], [], [], [], [], ''abc''] \<and>
   take 10 [[], [], [], [], [], [], [], [], [], [], ''abc''] = replicate 10 []"
proof -
  have run: "Suggestions (\<lambda>i xs. xs) ascii_lower (the (Train (fresh 2 1) [''abc''])) ''AB'' False
     = Some [[], [], [], [], [], [], [], [], [], [], ''abc'']" by code_simp
  with Suggestions_blank_prefix [of "the (Train (fresh 2 1) [''abc''])" "\<lambda>i xs. xs" ascii_lower "''AB''" False]
  show ?thesis by simp
qed



section \<open>No panic in the queries\<close>

























section \<open>The first-byte bonus of the ranker\<close>







end
